theory Spec2Isabelle
  imports Main
begin

section \<open>Strings as Python sees them\<close>

text \<open>
  A Python \<open>str\<close> is modelled as a HOL \<open>string\<close>, each \<open>char\<close> standing for one code
  point below 256. The three string methods the program calls are written out for that
  range: \<open>str.isspace\<close> (used by \<open>strip\<close>), \<open>str.lower\<close> and \<open>str.isdigit\<close>.
\<close>

definition py_isspace :: "char \<Rightarrow> bool" where
  "py_isspace c =
     (let n = (of_char c :: nat)
      in (9 \<le> n \<and> n \<le> 13) \<or> (28 \<le> n \<and> n \<le> 32) \<or> n = 133 \<or> n = 160)"

definition strip :: "string \<Rightarrow> string" where
  "strip s = rev (dropWhile py_isspace (rev (dropWhile py_isspace s)))"

definition lower_char :: "char \<Rightarrow> char" where
  "lower_char c =
     (let n = (of_char c :: nat)
      in if (65 \<le> n \<and> n \<le> 90) \<or> (192 \<le> n \<and> n \<le> 222 \<and> n \<noteq> 215)
         then char_of (n + 32) else c)"

definition lower :: "string \<Rightarrow> string" where
  "lower s = map lower_char s"

definition is_ascii_digit :: "char \<Rightarrow> bool" where
  "is_ascii_digit c = (let n = (of_char c :: nat) in 48 \<le> n \<and> n \<le> 57)"

definition isdigit :: "string \<Rightarrow> bool" where
  "isdigit s =
     (s \<noteq> [] \<and>
      list_all (\<lambda>c. is_ascii_digit c \<or> (of_char c :: nat) \<in> {178, 179, 185}) s)"

text \<open>The operator \<open>a in b\<close> on two strings: \<open>a\<close> occurs in \<open>b\<close> as a contiguous block.\<close>

fun starts_with :: "string \<Rightarrow> string \<Rightarrow> bool" where
  "starts_with [] b = True"
| "starts_with (x # a) [] = False"
| "starts_with (x # a) (y # b) = (x = y \<and> starts_with a b)"

fun py_in :: "string \<Rightarrow> string \<Rightarrow> bool" where
  "py_in a [] = (a = [])"
| "py_in a (y # b) = (starts_with a (y # b) \<or> py_in a b)"

definition replace_char :: "char \<Rightarrow> char \<Rightarrow> string \<Rightarrow> string" where
  "replace_char old new s = map (\<lambda>c. if c = old then new else c) s"

section \<open>Note records and note windows\<close>

text \<open>
  The dictionary \<open>get_note_data\<close> returns and \<open>sticky_notes.json\<close> stores, one field per
  key (\<open>n_id\<close> is the key \<open>"id"\<close>, \<open>n_text\<close> the key \<open>"text"\<close>, and so on). Every dictionary
  the program builds carries all nine keys.
\<close>

record note_data =
  n_id :: string
  n_text :: string
  n_x :: int
  n_y :: int
  n_width :: int
  n_height :: int
  n_color :: string
  n_is_open :: bool
  n_was_open :: bool

text \<open>
  A \<open>StickyNote\<close> window. The toolkit's part of the object is kept as the data the
  program reads back from it: \<open>text_area\<close> is the content of the text widget, \<open>bg\<close> the
  background colour and \<open>winfo_exists\<close> whether the window has not been destroyed.
  \<open>geometry_x\<close>, \<open>geometry_y\<close>, \<open>geometry_width\<close> and \<open>geometry_height\<close> hold what the program
  last asked for through \<open>geometry\<close>. \<open>winfo_x\<close>, \<open>winfo_y\<close>, \<open>winfo_width\<close> and
  \<open>winfo_height\<close> hold what the toolkit answers: a window of 1 by 1 at position 0, 0
  until the event loop has displayed the window, and the geometry asked for once the
  event loop has gone idle after the request.
\<close>

record sticky_note =
  note_id :: string
  text_area :: string
  winfo_x :: int
  winfo_y :: int
  winfo_width :: int
  winfo_height :: int
  geometry_x :: int
  geometry_y :: int
  geometry_width :: int
  geometry_height :: int
  bg :: string
  winfo_exists :: bool
  resize_start_x :: int
  resize_start_y :: int
  resize_start_width :: int
  resize_start_height :: int
  drag_start_x :: int
  drag_start_y :: int

text \<open>
  What a constructor call draws from its surroundings: the clock reading, already
  formatted as \<open>%Y%m%d%H%M%S\<close>, and the two results of \<open>random.randint\<close>.
\<close>

type_synonym env = "string \<times> int \<times> int"

text \<open>
  \<open>StickyNote.__init__\<close>. The expression \<open>note_id or now\<close> takes the clock for \<open>None\<close> and
  for the empty string alike. The constructor asks for 200 by 200 at the given or the
  random position; nothing has been displayed when it returns.
\<close>

fun StickyNote_init ::
  "env \<Rightarrow> string option \<Rightarrow> string \<Rightarrow> int option \<Rightarrow> int option \<Rightarrow> string \<Rightarrow> sticky_note" where
  "StickyNote_init (now, rx, ry) nid txt x y color =
     \<lparr> note_id = (case nid of None \<Rightarrow> now | Some i \<Rightarrow> if i = [] then now else i),
       text_area = txt,
       winfo_x = 0,
       winfo_y = 0,
       winfo_width = 1,
       winfo_height = 1,
       geometry_x = (case (x, y) of (Some a, Some b) \<Rightarrow> a | _ \<Rightarrow> rx),
       geometry_y = (case (x, y) of (Some a, Some b) \<Rightarrow> b | _ \<Rightarrow> ry),
       geometry_width = 200,
       geometry_height = 200,
       bg = color,
       winfo_exists = True,
       resize_start_x = 0, resize_start_y = 0,
       resize_start_width = 0, resize_start_height = 0,
       drag_start_x = 0, drag_start_y = 0 \<rparr>"

definition start_resize :: "int \<Rightarrow> int \<Rightarrow> sticky_note \<Rightarrow> sticky_note" where
  "start_resize x_root y_root w =
     w\<lparr> resize_start_x := x_root, resize_start_y := y_root,
        resize_start_width := winfo_width w, resize_start_height := winfo_height w \<rparr>"

definition on_resize :: "int \<Rightarrow> int \<Rightarrow> sticky_note \<Rightarrow> sticky_note" where
  "on_resize x_root y_root w =
     (let new_width = max 100 (resize_start_width w + (x_root - resize_start_x w));
          new_height = max 100 (resize_start_height w + (y_root - resize_start_y w))
      in w\<lparr> geometry_width := new_width, geometry_height := new_height \<rparr>)"

definition start_drag :: "int \<Rightarrow> int \<Rightarrow> sticky_note \<Rightarrow> sticky_note" where
  "start_drag ex ey w = w\<lparr> drag_start_x := ex, drag_start_y := ey \<rparr>"

definition on_drag :: "int \<Rightarrow> int \<Rightarrow> sticky_note \<Rightarrow> sticky_note" where
  "on_drag ex ey w =
     w\<lparr> geometry_x := winfo_x w + (ex - drag_start_x w),
        geometry_y := winfo_y w + (ey - drag_start_y w) \<rparr>"

text \<open>
  The event loop going idle, for one window: an existing window is displayed with the
  geometry last asked for, and the toolkit answers with that geometry from then on. The
  windows have no frame of the window manager (\<open>overrideredirect\<close>), so the geometry asked
  for is the geometry they get.
\<close>

definition apply_geometry :: "sticky_note \<Rightarrow> sticky_note" where
  "apply_geometry w =
     (if winfo_exists w
      then w\<lparr> winfo_x := geometry_x w, winfo_y := geometry_y w,
              winfo_width := geometry_width w, winfo_height := geometry_height w \<rparr>
      else w)"

text \<open>
  \<open>get_note_data\<close>. The text widget hands back its content followed by a newline, which
  \<open>strip\<close> removes together with all other surrounding white space. Position and size
  are what the toolkit answers at that moment.
\<close>

definition get_note_data :: "sticky_note \<Rightarrow> note_data" where
  "get_note_data w =
     \<lparr> n_id = note_id w,
       n_text = strip (text_area w @ [CHR 0x0A]),
       n_x = winfo_x w,
       n_y = winfo_y w,
       n_width = winfo_width w,
       n_height = winfo_height w,
       n_color = bg w,
       n_is_open = True,
       n_was_open = True \<rparr>"

section \<open>The list view\<close>

datatype preview_cell = NoContent | Content string

datatype status = StatusOpen | StatusClosed

record row =
  r_id :: string
  r_date :: string
  r_preview :: preview_cell
  r_status :: status

definition digits_val :: "string \<Rightarrow> nat" where
  "digits_val s = foldl (\<lambda>a c. 10 * a + ((of_char c :: nat) - 48)) 0 s"

definition is_leap :: "nat \<Rightarrow> bool" where
  "is_leap yr = (yr mod 4 = 0 \<and> (yr mod 100 \<noteq> 0 \<or> yr mod 400 = 0))"

definition days_in_month :: "nat \<Rightarrow> nat \<Rightarrow> nat" where
  "days_in_month yr m =
     (if m = 2 then (if is_leap yr then 29 else 28)
      else if m \<in> {4, 6, 9, 11} then 30 else 31)"

text \<open>
  Whether \<open>datetime.strptime(s, "%Y%m%d%H%M%S")\<close> returns for a string of 14 characters:
  every field takes its full width, so the string must be 14 ASCII digits that name a
  real date and time. Any failure is caught by the bare \<open>except\<close>.
\<close>

definition strptime_ok :: "string \<Rightarrow> bool" where
  "strptime_ok s =
     (let yr = digits_val (take 4 s); mo = digits_val (take 2 (drop 4 s));
          dy = digits_val (take 2 (drop 6 s)); hr = digits_val (take 2 (drop 8 s));
          mi = digits_val (take 2 (drop 10 s)); se = digits_val (take 2 (drop 12 s))
      in list_all is_ascii_digit s \<and> 1 \<le> yr \<and> 1 \<le> mo \<and> mo \<le> 12 \<and>
         1 \<le> dy \<and> dy \<le> days_in_month yr mo \<and> hr \<le> 23 \<and> mi \<le> 59 \<and> se \<le> 59)"

text \<open>
  The column \<open>date_display\<close>: \<open>%Y/%m/%d %H:%M\<close>. The C library writes the year without
  leading zeros, so a year below 1000 takes fewer than four digits.
\<close>

definition date_display :: "string \<Rightarrow> string" where
  "date_display date_str =
     (if length date_str = 14 \<and> isdigit date_str \<and> strptime_ok date_str
      then dropWhile (\<lambda>c. c = CHR ''0'') (take 4 date_str) @ ''/'' @
           take 2 (drop 4 date_str) @ ''/'' @
           take 2 (drop 6 date_str) @ '' '' @ take 2 (drop 8 date_str) @ '':'' @
           take 2 (drop 10 date_str)
      else date_str)"

definition preview_of_text :: "string \<Rightarrow> preview_cell" where
  "preview_of_text t =
     (let text = replace_char (CHR 0x0D) CHR '' '' (replace_char (CHR 0x0A) CHR '' '' (strip t));
          preview = (if length text > 80 then take 80 text @ ''...'' else text)
      in if preview = [] then NoContent else Content preview)"

definition make_row :: "note_data \<Rightarrow> row" where
  "make_row note =
     \<lparr> r_id = n_id note,
       r_date = date_display (n_id note),
       r_preview = preview_of_text (n_text note),
       r_status = (if n_is_open note then StatusOpen else StatusClosed) \<rparr>"

text \<open>The test of \<open>filter_notes\<close>; \<open>search_text\<close> arrives already in lower case.\<close>

definition note_matches :: "string \<Rightarrow> note_data \<Rightarrow> bool" where
  "note_matches search_text note =
     (py_in search_text (lower (n_id note)) \<or> py_in search_text (lower (n_text note)))"

text \<open>The loop of \<open>filter_notes\<close> over \<open>all_notes\<close>, inserting each row at the end.\<close>

fun insert_rows :: "string \<Rightarrow> note_data list \<Rightarrow> row list \<Rightarrow> row list" where
  "insert_rows search_text [] tree_rows = tree_rows"
| "insert_rows search_text (note # rest) tree_rows =
     insert_rows search_text rest
       (if note_matches search_text note then tree_rows @ [make_row note] else tree_rows)"

section \<open>The application state\<close>

record payload =
  p_text :: string
  p_bg :: string

text \<open>
  \<open>windows\<close> is the list \<open>self.notes\<close> of \<open>StickyNoteApp\<close> (\<open>notes\<close> is a keyword of
  Isabelle) and \<open>all_notes\<close> its list of records; \<open>tree\<close> holds the rows of
  the list view and \<open>selection\<close> the id column of the selected row; \<open>preview\<close> is what the
  preview pane shows; \<open>notes_file\<close> is the content of \<open>sticky_notes.json\<close>, \<open>None\<close> while
  the file does not exist.
\<close>

record app =
  windows :: "sticky_note list"
  all_notes :: "note_data list"
  search_var :: string
  tree :: "row list"
  selection :: "string option"
  preview :: payload
  notes_file :: "note_data list option"

text \<open>
  The loop \<open>for i, note in enumerate(all_notes): if note["id"] == k: ...; break\<close>, which
  the program writes out wherever it changes one record: the first record with id \<open>k\<close> is
  changed by \<open>f\<close>, and no other.
\<close>

fun update_first :: "string \<Rightarrow> (note_data \<Rightarrow> note_data) \<Rightarrow> note_data list \<Rightarrow> note_data list" where
  "update_first k f [] = []"
| "update_first k f (n # ns) = (if n_id n = k then f n # ns else n # update_first k f ns)"

fun delete_first :: "string \<Rightarrow> note_data list \<Rightarrow> note_data list" where
  "delete_first k [] = []"
| "delete_first k (n # ns) = (if n_id n = k then ns else n # delete_first k ns)"

definition find_note :: "string \<Rightarrow> note_data list \<Rightarrow> note_data option" where
  "find_note k ns = find (\<lambda>n. n_id n = k) ns"

definition find_window :: "string \<Rightarrow> sticky_note list \<Rightarrow> sticky_note option" where
  "find_window k ws = find (\<lambda>w. winfo_exists w \<and> note_id w = k) ws"

text \<open>
  \<open>filter_notes\<close> deletes every row of the tree, and with the rows the selection, before
  it inserts the rows again.
\<close>

definition filter_notes :: "app \<Rightarrow> app" where
  "filter_notes s =
     s\<lparr> tree := insert_rows (lower (search_var s)) (all_notes s) [], selection := None \<rparr>"

text \<open>
  The first loop of \<open>refresh_note_list\<close>: every existing window adds its id to
  \<open>open_note_ids\<close> and overwrites the first record bearing that id.
\<close>

fun pull_windows ::
  "sticky_note list \<Rightarrow> string list \<times> note_data list \<Rightarrow> string list \<times> note_data list" where
  "pull_windows [] acc = acc"
| "pull_windows (w # ws) (open_note_ids, ns) =
     pull_windows ws
       (if winfo_exists w
        then (note_id w # open_note_ids, update_first (note_id w) (\<lambda>_. get_note_data w) ns)
        else (open_note_ids, ns))"

definition mark_closed :: "string list \<Rightarrow> note_data list \<Rightarrow> note_data list" where
  "mark_closed open_note_ids ns =
     map (\<lambda>n. if n_id n \<notin> set open_note_ids then n\<lparr> n_is_open := False \<rparr> else n) ns"

definition reconcile :: "sticky_note list \<Rightarrow> note_data list \<Rightarrow> note_data list" where
  "reconcile ws ns = (case pull_windows ws ([], ns) of (ids, ns') \<Rightarrow> mark_closed ids ns')"

definition refresh_note_list :: "app \<Rightarrow> app" where
  "refresh_note_list s = filter_notes (s\<lparr> all_notes := reconcile (windows s) (all_notes s) \<rparr>)"

definition save_notes :: "app \<Rightarrow> app" where
  "save_notes s = (let s' = refresh_note_list s in s'\<lparr> notes_file := Some (all_notes s') \<rparr>)"

text \<open>The preview pane as \<open>StickyNoteApp.update_preview\<close> computes it.\<close>

definition preview_projection :: "string option \<Rightarrow> note_data list \<Rightarrow> payload \<Rightarrow> payload" where
  "preview_projection selected ns shown =
     (case selected of
        Some k \<Rightarrow>
          (case find_note k ns of
             Some note_data \<Rightarrow> \<lparr> p_text = n_text note_data, p_bg = n_color note_data \<rparr>
           | None \<Rightarrow> shown)
      | None \<Rightarrow> \<lparr> p_text = [], p_bg = ''white'' \<rparr>)"

definition update_preview :: "app \<Rightarrow> app" where
  "update_preview s = s\<lparr> preview := preview_projection (selection s) (all_notes s) (preview s) \<rparr>"

text \<open>
  \<open>PreviewPanelComponent.update_preview\<close> of \<open>views/components/preview_panel.py\<close>, which
  is handed the record itself, or \<open>None\<close>.
\<close>

definition panel_update_preview :: "note_data option \<Rightarrow> payload" where
  "panel_update_preview note =
     (case note of
        Some n \<Rightarrow> \<lparr> p_text = n_text n, p_bg = n_color n \<rparr>
      | None \<Rightarrow> \<lparr> p_text = [], p_bg = ''white'' \<rparr>)"

section \<open>Operations of the manager window\<close>

text \<open>
  The event loop going idle, for all windows of the program. A message box or a colour
  dialog runs the event loop until it is answered, so the event loop has gone idle when
  the call that shows it returns.
\<close>

definition idle :: "app \<Rightarrow> app" where
  "idle s = s\<lparr> windows := map apply_geometry (windows s) \<rparr>"

text \<open>
  \<open>create_new_note\<close>. A record read from the store or the file has its \<open>"x"\<close>, \<open>"y"\<close>,
  \<open>"width"\<close> and \<open>"height"\<close> keys, so the window is asked to take its position and size from
  them. The button of the tool bar calls the function without a record. The record is
  written, and the list refreshed, straight after the constructor.
\<close>

definition create_new_note :: "env \<Rightarrow> note_data option \<Rightarrow> app \<Rightarrow> app" where
  "create_new_note e note_data s =
     (let note =
            (case note_data of
               Some d \<Rightarrow>
                 (StickyNote_init e (Some (n_id d)) (n_text d) (Some (n_x d)) (Some (n_y d))
                    (n_color d))
                 \<lparr> geometry_width := n_width d, geometry_height := n_height d \<rparr>
             | None \<Rightarrow> StickyNote_init e None [] None None ''#FFFF99'');
          stored =
            (case note_data of
               Some d \<Rightarrow>
                 (case find_note (note_id note) (all_notes s) of
                    Some existing_note \<Rightarrow>
                      update_first (note_id note) (\<lambda>_. get_note_data note) (all_notes s)
                  | None \<Rightarrow> all_notes s @ [get_note_data note])
             | None \<Rightarrow> all_notes s @ [get_note_data note])
      in refresh_note_list (s\<lparr> all_notes := stored, windows := windows s @ [note] \<rparr>))"

text \<open>
  \<open>open_selected_note\<close>: nothing selected, the note already on screen, and no record of
  that id are the three early returns; the first and the third show a message box.
\<close>

definition open_selected_note :: "env \<Rightarrow> app \<Rightarrow> app" where
  "open_selected_note e s =
     (case selection s of
        None \<Rightarrow> idle s
      | Some k \<Rightarrow>
          (case find_window k (windows s) of
             Some note \<Rightarrow> s
           | None \<Rightarrow>
               (case find_note k (all_notes s) of
                  None \<Rightarrow> idle s
                | Some note_data \<Rightarrow>
                    create_new_note e (Some (note_data\<lparr> n_is_open := True \<rparr>))
                      (s\<lparr> all_notes :=
                            update_first k (\<lambda>n. n\<lparr> n_is_open := True \<rparr>) (all_notes s) \<rparr>))))"

text \<open>
  \<open>delete_selected_note\<close>; \<open>confirmed\<close> is the answer to the yes/no dialog, and \<open>s'\<close> the
  state when the dialog has been answered.
\<close>

definition delete_selected_note :: "bool \<Rightarrow> app \<Rightarrow> app" where
  "delete_selected_note confirmed s =
     (case selection s of
        None \<Rightarrow> idle s
      | Some k \<Rightarrow>
          (let s' = idle s
           in if \<not> confirmed then s'
              else refresh_note_list (save_notes
                     (s'\<lparr> windows := filter (\<lambda>w. \<not> (winfo_exists w \<and> note_id w = k)) (windows s'),
                          all_notes := delete_first k (all_notes s') \<rparr>))))"

text \<open>
  \<open>change_selected_note_color\<close>; \<open>chosen\<close> is what the colour dialog returned, \<open>None\<close> when
  it was cancelled, and \<open>s'\<close> the state when the dialog has been answered. With no record
  of the selected id the function returns without showing anything.
\<close>

definition change_selected_note_color :: "string option \<Rightarrow> app \<Rightarrow> app" where
  "change_selected_note_color chosen s =
     (case selection s of
        None \<Rightarrow> idle s
      | Some k \<Rightarrow>
          (case find_note k (all_notes s) of
             None \<Rightarrow> s
           | Some note_data \<Rightarrow>
               (let s' = idle s
                in case chosen of
                     None \<Rightarrow> s'
                   | Some color \<Rightarrow>
                       if color = [] then s'
                       else update_preview (refresh_note_list (save_notes
                              (s'\<lparr> all_notes :=
                                     update_first k (\<lambda>n. n\<lparr> n_color := color \<rparr>) (all_notes s'),
                                   windows :=
                                     map (\<lambda>w. if winfo_exists w \<and> note_id w = k
                                              then w\<lparr> bg := color \<rparr> else w) (windows s') \<rparr>))))))"

definition update_note_in_list :: "string \<Rightarrow> app \<Rightarrow> app" where
  "update_note_in_list k s =
     (case find_window k (windows s) of
        None \<Rightarrow> s
      | Some note \<Rightarrow>
          update_preview (refresh_note_list
            (s\<lparr> all_notes := update_first k (\<lambda>_. get_note_data note) (all_notes s) \<rparr>)))"

definition update_closed_note :: "note_data \<Rightarrow> app \<Rightarrow> app" where
  "update_closed_note note_data s =
     refresh_note_list
       (s\<lparr> all_notes := update_first (n_id note_data) (\<lambda>_. note_data) (all_notes s) \<rparr>)"

text \<open>
  The loop of \<open>load_notes\<close> that opens the selected records again; \<open>clock\<close> gives the
  surroundings of the \<open>i\<close>-th constructor call.
\<close>

fun reopen :: "(nat \<Rightarrow> env) \<Rightarrow> nat \<Rightarrow> note_data list \<Rightarrow> app \<Rightarrow> app" where
  "reopen clock i [] s = s"
| "reopen clock i (note_data # rest) s =
     reopen clock (Suc i) rest (create_new_note (clock i) (Some note_data) s)"

text \<open>
  \<open>load_notes\<close>, for a file that parses. The list \<open>open_notes\<close> is built after
  \<open>refresh_note_list\<close> has run on the records just read.
\<close>

definition load_notes :: "(nat \<Rightarrow> env) \<Rightarrow> app \<Rightarrow> app" where
  "load_notes clock s =
     (case notes_file s of
        None \<Rightarrow> s
      | Some content \<Rightarrow>
          (let s' = refresh_note_list (s\<lparr> all_notes := content \<rparr>);
               open_notes = filter (\<lambda>note. n_is_open note \<or> n_was_open note) (all_notes s')
           in reopen clock 0 open_notes s'))"

text \<open>The loop of \<open>on_exit\<close> over the windows.\<close>

fun mark_was_open :: "sticky_note list \<Rightarrow> note_data list \<Rightarrow> note_data list" where
  "mark_was_open [] ns = ns"
| "mark_was_open (w # ws) ns =
     mark_was_open ws
       (if winfo_exists w
        then update_first (note_id w) (\<lambda>n. n\<lparr> n_was_open := True \<rparr>) ns else ns)"

text \<open>\<open>on_exit\<close>; destroying the manager window destroys every note window with it.\<close>

definition on_exit :: "app \<Rightarrow> app" where
  "on_exit s =
     (let s' = save_notes (s\<lparr> all_notes := mark_was_open (windows s) (all_notes s) \<rparr>)
      in s'\<lparr> windows := map (\<lambda>w. w\<lparr> winfo_exists := False \<rparr>) (windows s') \<rparr>)"

text \<open>
  \<open>StickyNoteApp.__init__\<close>: the fields as the constructor sets them, then \<open>load_notes\<close>.
  \<open>content\<close> is what is on disk and \<open>default_bg\<close> the toolkit's colour of a text widget.
\<close>

definition StickyNoteApp_init :: "(nat \<Rightarrow> env) \<Rightarrow> string \<Rightarrow> note_data list option \<Rightarrow> app" where
  "StickyNoteApp_init clock default_bg content =
     load_notes clock
       \<lparr> windows = [], all_notes = [], search_var = [], tree = [], selection = None,
         preview = \<lparr> p_text = [], p_bg = default_bg \<rparr>, notes_file = content \<rparr>"

section \<open>Operations of a note window\<close>

text \<open>
  A window is addressed by its position \<open>i\<close> in \<open>windows\<close>. \<open>save_note\<close> also serves
  \<open>save_on_focus_out\<close> and the key binding.
\<close>

definition save_note :: "nat \<Rightarrow> app \<Rightarrow> app" where
  "save_note i s = update_note_in_list (note_id (windows s ! i)) (save_notes s)"

definition change_color :: "nat \<Rightarrow> string option \<Rightarrow> app \<Rightarrow> app" where
  "change_color i chosen s =
     (case chosen of
        None \<Rightarrow> s
      | Some color \<Rightarrow>
          if color = [] then s
          else (let s' = save_note i (s\<lparr> windows := (windows s)[i := (windows s ! i)\<lparr> bg := color \<rparr>] \<rparr>)
                in update_note_in_list (note_id (windows s' ! i)) s'))"

definition on_close :: "nat \<Rightarrow> app \<Rightarrow> app" where
  "on_close i s =
     (let s' = save_note i s;
          note_data = (get_note_data (windows s' ! i))\<lparr> n_is_open := False, n_was_open := True \<rparr>;
          s'' = update_closed_note note_data s'
      in s''\<lparr> windows := (windows s'')[i := (windows s'' ! i)\<lparr> winfo_exists := False \<rparr>] \<rparr>)"

section \<open>Events\<close>

text \<open>
  What the user can do. An event of a note window carries the position of that window
  in \<open>windows\<close>; the toolkit delivers it only while the window exists, and the user can
  act on a note window only once it is on screen, so the event loop has gone idle before
  the handler runs (the colour dialog of \<open>change_color\<close> is shown at the start of the
  handler). \<open>Idle\<close> is the event loop going idle at any other moment. \<open>Relaunch\<close> is
  leaving through \<open>on_exit\<close> and starting the program again on the file left behind.
\<close>

datatype action =
    NewNote env
  | SelectRow nat
  | OpenSelected env
  | DeleteSelected bool
  | RecolorSelected "string option"
  | Refresh
  | Search string
  | TypeText nat string
  | StartResize nat int int
  | Resize nat int int
  | StartDrag nat int int
  | Drag nat int int
  | FocusOut nat
  | Recolor nat "string option"
  | Close nat
  | Relaunch "nat \<Rightarrow> env" string
  | Idle

definition on_window :: "nat \<Rightarrow> (sticky_note \<Rightarrow> sticky_note) \<Rightarrow> app \<Rightarrow> app" where
  "on_window i f s = s\<lparr> windows := (windows s)[i := f (windows s ! i)] \<rparr>"

definition live :: "nat \<Rightarrow> app \<Rightarrow> bool" where
  "live i s = (i < length (windows s) \<and> winfo_exists (windows s ! i))"

fun step :: "action \<Rightarrow> app \<Rightarrow> app" where
  "step (NewNote e) s = create_new_note e None s"
| "step (SelectRow j) s =
     (if j < length (tree s) then update_preview (s\<lparr> selection := Some (r_id (tree s ! j)) \<rparr>)
      else s)"
| "step (OpenSelected e) s = open_selected_note e s"
| "step (DeleteSelected confirmed) s = delete_selected_note confirmed s"
| "step (RecolorSelected chosen) s = change_selected_note_color chosen s"
| "step Refresh s = refresh_note_list s"
| "step (Search t) s = filter_notes (s\<lparr> search_var := t \<rparr>)"
| "step (TypeText i t) s = (if live i s then on_window i (\<lambda>w. w\<lparr> text_area := t \<rparr>) (idle s) else s)"
| "step (StartResize i a b) s = (if live i s then on_window i (start_resize a b) (idle s) else s)"
| "step (Resize i a b) s = (if live i s then on_window i (on_resize a b) (idle s) else s)"
| "step (StartDrag i a b) s = (if live i s then on_window i (start_drag a b) (idle s) else s)"
| "step (Drag i a b) s = (if live i s then on_window i (on_drag a b) (idle s) else s)"
| "step (FocusOut i) s = (if live i s then save_note i (idle s) else s)"
| "step (Recolor i chosen) s = (if live i s then change_color i chosen (idle s) else s)"
| "step (Close i) s = (if live i s then on_close i (idle s) else s)"
| "step (Relaunch clock default_bg) s =
     StickyNoteApp_init clock default_bg (notes_file (on_exit s))"
| "step Idle s = idle s"

fun run :: "action list \<Rightarrow> app \<Rightarrow> app" where
  "run [] s = s"
| "run (a # as) s = run as (step a s)"

section \<open>Notions of the specification\<close>

text \<open>Substring, in the words of the specification: \<open>a\<close> lies somewhere inside \<open>b\<close>.\<close>

definition is_substring :: "string \<Rightarrow> string \<Rightarrow> bool" where
  "is_substring a b = (\<exists>p q. b = p @ a @ q)"

text \<open>
  The matching rule of the list view as the specification words it: the lower-case
  search string is a substring of the lower-case id or of the lower-case text.
\<close>

definition spec_matches :: "string \<Rightarrow> note_data \<Rightarrow> bool" where
  "spec_matches search n =
     (is_substring (lower search) (lower (n_id n)) \<or>
      is_substring (lower search) (lower (n_text n)))"

text \<open>
  A record \<open>b\<close> continues a record \<open>a\<close>: it has the same id, and \<open>was_open\<close> has not gone
  back from true to false. A store \<open>after\<close> keeps a store \<open>before\<close> when it continues it
  position by position, possibly with further records at the end.
\<close>

definition was_open_kept :: "note_data \<Rightarrow> note_data \<Rightarrow> bool" where
  "was_open_kept a b = (n_id b = n_id a \<and> (n_was_open a \<longrightarrow> n_was_open b))"

definition keeps :: "note_data list \<Rightarrow> note_data list \<Rightarrow> bool" where
  "keeps before after =
     (length before \<le> length after \<and>
      list_all2 was_open_kept before (take (length before) after))"

fun is_delete :: "action \<Rightarrow> bool" where
  "is_delete (DeleteSelected confirmed) = True"
| "is_delete a = False"



text \<open>
  The preview pane in the words of the specification: text and colour of the record the
  selected id names, and the cleared pane when nothing is selected or no record bears
  the id.
\<close>

definition spec_preview :: "string option \<Rightarrow> note_data list \<Rightarrow> payload" where
  "spec_preview selected ns =
     (case selected of
        None \<Rightarrow> \<lparr> p_text = [], p_bg = ''white'' \<rparr>
      | Some k \<Rightarrow>
          (case find_note k ns of
             None \<Rightarrow> \<lparr> p_text = [], p_bg = ''white'' \<rparr>
           | Some r \<Rightarrow> \<lparr> p_text = n_text r, p_bg = n_color r \<rparr>))"

text \<open>
  Every row of the list view, and the selected row with them, shows the id of a record
  of the store.
\<close>

definition tree_ok :: "app \<Rightarrow> bool" where
  "tree_ok s =
     (list_all (\<lambda>r. find_note (r_id r) (all_notes s) \<noteq> None) (tree s) \<and>
      (case selection s of None \<Rightarrow> True | Some k \<Rightarrow> find_note k (all_notes s) \<noteq> None))"

section \<open>Example data\<close>

definition example_env :: env where
  "example_env = (''20240101120000'', 60, 70)"

text \<open>The program started for the first time, no file on disk.\<close>

definition first_launch :: app where
  "first_launch = StickyNoteApp_init (\<lambda>i. example_env) ''white'' None"

definition example_note :: "string \<Rightarrow> string \<Rightarrow> bool \<Rightarrow> bool \<Rightarrow> note_data" where
  "example_note k t is_open was_open =
     \<lparr> n_id = k, n_text = t, n_x = 10, n_y = 20, n_width = 200, n_height = 200,
       n_color = ''#FFFF99'', n_is_open = is_open, n_was_open = was_open \<rparr>"

definition example_window :: "string \<Rightarrow> string \<Rightarrow> sticky_note" where
  "example_window k t = StickyNote_init example_env (Some k) t (Some 10) (Some 20) ''#FFFF99''"

definition example_app :: "sticky_note list \<Rightarrow> note_data list \<Rightarrow> string \<Rightarrow> app" where
  "example_app ws ns search =
     \<lparr> windows = ws, all_notes = ns, search_var = search, tree = [], selection = None,
       preview = \<lparr> p_text = [], p_bg = ''white'' \<rparr>, notes_file = None \<rparr>"

section \<open>The list view shows the matching records\<close>

lemma starts_with_iff: "starts_with a b \<longleftrightarrow> (\<exists>q. b = a @ q)"
  by (induction a b rule: starts_with.induct) auto

lemma py_in_iff: "py_in a b \<longleftrightarrow> is_substring a b"
proof (induction b)
  case Nil
  show ?case by (auto simp: is_substring_def)
next
  case (Cons y b)
  have "is_substring a (y # b) \<longleftrightarrow> (\<exists>q. y # b = a @ q) \<or> is_substring a b"
  proof
    assume "is_substring a (y # b)"
    then obtain p q where pq: "y # b = p @ a @ q" by (auto simp: is_substring_def)
    show "(\<exists>q. y # b = a @ q) \<or> is_substring a b"
    proof (cases p)
      case Nil
      with pq show ?thesis by auto
    next
      case (Cons z p')
      with pq have "b = p' @ a @ q" by simp
      then show ?thesis by (auto simp: is_substring_def)
    qed
  next
    assume "(\<exists>q. y # b = a @ q) \<or> is_substring a b"
    then show "is_substring a (y # b)"
    proof
      assume "\<exists>q. y # b = a @ q"
      then obtain q where "y # b = [] @ a @ q" by auto
      then show ?thesis unfolding is_substring_def by blast
    next
      assume "is_substring a b"
      then obtain p q where "b = p @ a @ q" by (auto simp: is_substring_def)
      then have "y # b = (y # p) @ a @ q" by simp
      then show ?thesis unfolding is_substring_def by blast
    qed
  qed
  with Cons show ?case by (simp add: starts_with_iff)
qed

lemma note_matches_spec: "note_matches (lower q) n = spec_matches q n"
  by (simp add: note_matches_def spec_matches_def py_in_iff)

lemma insert_rows_eq:
  "insert_rows q ns acc = acc @ map make_row (filter (note_matches q) ns)"
  by (induction ns arbitrary: acc) auto

lemma is_substring_Nil: "is_substring [] b"
  unfolding is_substring_def by (metis append_Nil)

text \<open>
  Claim C7. The list view holds exactly the rows of the records that match the search
  string in the sense of the specification, in the order of the store; the empty search
  string keeps every record; a record whose text contains the search string has its row
  in the view, whatever its id.
\<close>

theorem filter_notes_view:
  "tree (filter_notes s) = map make_row (filter (spec_matches (search_var s)) (all_notes s))
   \<and> (search_var s = [] \<longrightarrow> map r_id (tree (filter_notes s)) = map n_id (all_notes s))
   \<and> (\<forall>n \<in> set (all_notes s).
        is_substring (lower (search_var s)) (lower (n_text n))
          \<longrightarrow> make_row n \<in> set (tree (filter_notes s)))"
proof -
  have eq: "tree (filter_notes s) = map make_row (filter (spec_matches (search_var s)) (all_notes s))"
    by (simp add: filter_notes_def insert_rows_eq note_matches_spec [abs_def])
  have all: "map r_id (tree (filter_notes s)) = map n_id (all_notes s)" if "search_var s = []"
  proof -
    have "spec_matches [] = (\<lambda>n. True)"
      by (simp add: spec_matches_def lower_def is_substring_Nil fun_eq_iff)
    with that show ?thesis by (simp add: eq make_row_def comp_def)
  qed
  have in_text: "make_row n \<in> set (tree (filter_notes s))"
    if "n \<in> set (all_notes s)" and "is_substring (lower (search_var s)) (lower (n_text n))" for n
    using that by (simp add: eq spec_matches_def)
  from eq all in_text show ?thesis by blast
qed

theorem filter_notes_view_witness:
  "search_var (example_app [] [example_note ''20240101120000'' ''Hello'' False True,
                               example_note ''20240101120001'' ''bye'' False True] []) = []
   \<and> map r_id (tree (filter_notes
         (example_app [] [example_note ''20240101120000'' ''Hello'' False True,
                          example_note ''20240101120001'' ''bye'' False True] [])))
       = [''20240101120000'', ''20240101120001'']
   \<and> is_substring (lower ''ELL'') (lower ''Hello'')
   \<and> make_row (example_note ''20240101120000'' ''Hello'' False True)
       \<in> set (tree (filter_notes
             (example_app [] [example_note ''20240101120000'' ''Hello'' False True,
                              example_note ''20240101120001'' ''bye'' False True] ''ELL'')))"
proof -
  let ?n = "example_note ''20240101120000'' ''Hello'' False True"
  let ?ns = "[?n, example_note ''20240101120001'' ''bye'' False True]"
  let ?A = "example_app [] ?ns []"
  let ?B = "example_app [] ?ns ''ELL''"
  have "py_in (lower ''ELL'') (lower ''Hello'')" by code_simp
  then have sub: "is_substring (lower ''ELL'') (lower ''Hello'')"
    by (simp add: py_in_iff)
  have empty: "search_var ?A = []"
    by (simp add: example_app_def)
  with filter_notes_view [of ?A]
  have "map r_id (tree (filter_notes ?A)) = map n_id (all_notes ?A)"
    by blast
  then have every: "map r_id (tree (filter_notes ?A)) = [''20240101120000'', ''20240101120001'']"
    by (simp add: example_app_def example_note_def)
  have "?n \<in> set (all_notes ?B)"
    by (simp add: example_app_def)
  moreover have "is_substring (lower (search_var ?B)) (lower (n_text ?n))"
    using sub by (simp add: example_app_def example_note_def)
  ultimately have "make_row ?n \<in> set (tree (filter_notes ?B))"
    using filter_notes_view [of ?B] by blast
  with sub empty every show ?thesis by blast
qed

section \<open>Basic facts about the store\<close>

lemma update_first_length [simp]: "length (update_first k f ns) = length ns"
  by (induction ns) auto

lemma update_first_ids:
  "(\<And>n. n_id n = k \<Longrightarrow> n_id (f n) = k) \<Longrightarrow> map n_id (update_first k f ns) = map n_id ns"
  by (induction ns) auto

lemma update_first_absent: "k \<notin> n_id ` set ns \<Longrightarrow> update_first k f ns = ns"
  by (induction ns) auto

lemma pull_windows_ids: "map n_id (snd (pull_windows ws (ids, ns))) = map n_id ns"
  by (induction ws arbitrary: ids ns) (auto simp: update_first_ids get_note_data_def)

lemma mark_closed_ids: "map n_id (mark_closed ids ns) = map n_id ns"
  by (simp add: mark_closed_def comp_def)

lemma reconcile_ids: "map n_id (reconcile ws ns) = map n_id ns"
  using pull_windows_ids [of ws "[]" ns]
  by (cases "pull_windows ws ([], ns)") (simp add: reconcile_def mark_closed_ids)

lemma refresh_ids: "map n_id (all_notes (refresh_note_list s)) = map n_id (all_notes s)"
  by (simp add: refresh_note_list_def filter_notes_def reconcile_ids)

subsection \<open>Projections\<close>

lemma filter_notes_sel [simp]:
  "all_notes (filter_notes s) = all_notes s"
  "windows (filter_notes s) = windows s"
  "notes_file (filter_notes s) = notes_file s"
  "preview (filter_notes s) = preview s"
  by (simp_all add: filter_notes_def)

lemma refresh_sel [simp]:
  "all_notes (refresh_note_list s) = reconcile (windows s) (all_notes s)"
  "windows (refresh_note_list s) = windows s"
  "notes_file (refresh_note_list s) = notes_file s"
  by (simp_all add: refresh_note_list_def)

lemma save_sel [simp]:
  "all_notes (save_notes s) = reconcile (windows s) (all_notes s)"
  "windows (save_notes s) = windows s"
  "notes_file (save_notes s) = Some (reconcile (windows s) (all_notes s))"
  by (simp_all add: save_notes_def Let_def)

lemma idle_sel [simp]:
  "all_notes (idle s) = all_notes s"
  "notes_file (idle s) = notes_file s"
  "tree (idle s) = tree s"
  "selection (idle s) = selection s"
  "length (windows (idle s)) = length (windows s)"
  by (simp_all add: idle_def)

lemma apply_geometry_same [simp]:
  "winfo_exists (apply_geometry w) = winfo_exists w"
  "note_id (apply_geometry w) = note_id w"
  by (simp_all add: apply_geometry_def)

lemma live_idle [simp]: "live i (idle s) = live i s"
  by (auto simp: live_def idle_def)

lemma update_preview_sel [simp]:
  "all_notes (update_preview s) = all_notes s"
  "windows (update_preview s) = windows s"
  "notes_file (update_preview s) = notes_file s"
  by (simp_all add: update_preview_def)

lemma find_window_Some: "find_window k ws = Some w \<Longrightarrow> w \<in> set ws \<and> winfo_exists w \<and> note_id w = k"
  unfolding find_window_def by (induction ws) (auto split: if_splits)


lemma find_note_None: "find_note k ns = None \<longleftrightarrow> k \<notin> n_id ` set ns"
  unfolding find_note_def by (auto simp: find_None_iff)

lemma find_note_Some: "find_note k ns = Some n \<Longrightarrow> n \<in> set ns \<and> n_id n = k"
  unfolding find_note_def by (induction ns) (auto split: if_splits)

lemma update_note_in_list_sel:
  "all_notes (update_note_in_list k s) =
     (case find_window k (windows s) of None \<Rightarrow> all_notes s
      | Some w \<Rightarrow> reconcile (windows s) (update_first k (\<lambda>_. get_note_data w) (all_notes s)))"
  "windows (update_note_in_list k s) = windows s"
  "notes_file (update_note_in_list k s) = notes_file s"
  by (simp_all add: update_note_in_list_def split: option.split)

lemma update_closed_note_sel:
  "all_notes (update_closed_note d s) =
     reconcile (windows s) (update_first (n_id d) (\<lambda>_. d) (all_notes s))"
  "windows (update_closed_note d s) = windows s"
  "notes_file (update_closed_note d s) = notes_file s"
  by (simp_all add: update_closed_note_def)

subsection \<open>The update operations and the ids of the store\<close>

lemma update_note_in_list_ids:
  "map n_id (all_notes (update_note_in_list k s)) = map n_id (all_notes s)"
  by (auto simp: update_note_in_list_sel reconcile_ids update_first_ids get_note_data_def
      split: option.split dest: find_window_Some)

lemma update_closed_note_ids:
  "map n_id (all_notes (update_closed_note d s)) = map n_id (all_notes s)"
  by (simp add: update_closed_note_sel reconcile_ids update_first_ids)

text \<open>
  Claim C10, amended. \<open>update_note_in_list\<close>, \<open>update_closed_note\<close> and
  \<open>refresh_note_list\<close> leave the sequence of record ids, and so the number of records,
  as it was. \<open>update_note_in_list\<close> on an id without an existing window changes nothing
  at all. Where the id has no record, \<open>update_note_in_list\<close> (given a window) and
  \<open>update_closed_note\<close> overwrite nothing, but still run \<open>refresh_note_list\<close>: the
  store ends as \<open>refresh_note_list\<close> alone would leave it.
\<close>

theorem updates_keep_ids:
  "map n_id (all_notes (update_note_in_list k s)) = map n_id (all_notes s)
   \<and> map n_id (all_notes (update_closed_note d s)) = map n_id (all_notes s)
   \<and> map n_id (all_notes (refresh_note_list s)) = map n_id (all_notes s)
   \<and> (find_window k (windows s) = None \<longrightarrow> update_note_in_list k s = s)
   \<and> (find_window k (windows s) \<noteq> None \<and> find_note k (all_notes s) = None \<longrightarrow>
        all_notes (update_note_in_list k s) = all_notes (refresh_note_list s))
   \<and> (find_note (n_id d) (all_notes s) = None \<longrightarrow>
        all_notes (update_closed_note d s) = all_notes (refresh_note_list s))"
proof (intro conjI impI)
  show "map n_id (all_notes (update_note_in_list k s)) = map n_id (all_notes s)"
    by (rule update_note_in_list_ids)
  show "map n_id (all_notes (update_closed_note d s)) = map n_id (all_notes s)"
    by (rule update_closed_note_ids)
  show "map n_id (all_notes (refresh_note_list s)) = map n_id (all_notes s)"
    by (rule refresh_ids)
  show "update_note_in_list k s = s" if "find_window k (windows s) = None"
    using that by (simp add: update_note_in_list_def)
  show "all_notes (update_note_in_list k s) = all_notes (refresh_note_list s)"
    if "find_window k (windows s) \<noteq> None \<and> find_note k (all_notes s) = None"
    using that by (auto simp: update_note_in_list_sel update_first_absent find_note_None)
  show "all_notes (update_closed_note d s) = all_notes (refresh_note_list s)"
    if "find_note (n_id d) (all_notes s) = None"
    using that by (simp add: update_closed_note_sel update_first_absent find_note_None)
qed

theorem updates_keep_ids_witness:
  "find_window ''7'' (windows (example_app [] [example_note ''1'' ''a'' True True] [])) = None
   \<and> update_note_in_list ''7'' (example_app [] [example_note ''1'' ''a'' True True] [])
       = example_app [] [example_note ''1'' ''a'' True True] []
   \<and> find_note ''7'' (all_notes (example_app [] [example_note ''1'' ''a'' True True] [])) = None
   \<and> all_notes (update_closed_note (example_note ''7'' ''b'' False True)
         (example_app [] [example_note ''1'' ''a'' True True] []))
       = all_notes (refresh_note_list (example_app [] [example_note ''1'' ''a'' True True] []))
   \<and> find_window ''7'' (windows (example_app [example_window ''7'' ''b'']
         [example_note ''1'' ''a'' True True] [])) \<noteq> None
   \<and> all_notes (update_note_in_list ''7''
         (example_app [example_window ''7'' ''b''] [example_note ''1'' ''a'' True True] []))
       = all_notes (refresh_note_list
           (example_app [example_window ''7'' ''b''] [example_note ''1'' ''a'' True True] []))"
proof -
  have a: "find_window ''7'' (windows (example_app [] [example_note ''1'' ''a'' True True] [])) = None"
    by (simp add: example_app_def find_window_def)
  have b: "find_note ''7'' (all_notes (example_app [] [example_note ''1'' ''a'' True True] [])) = None"
    by (simp add: example_app_def example_note_def find_note_def)
  have c: "find_window ''7'' (windows (example_app [example_window ''7'' ''b'']
             [example_note ''1'' ''a'' True True] [])) \<noteq> None"
    by (simp add: example_app_def example_window_def example_env_def find_window_def)
  have d: "find_note ''7'' (all_notes (example_app [example_window ''7'' ''b'']
             [example_note ''1'' ''a'' True True] [])) = None"
    by (simp add: example_app_def example_note_def find_note_def)
  show ?thesis
    using a b c d
      updates_keep_ids [of "''7''" "example_app [] [example_note ''1'' ''a'' True True] []"
        "example_note ''7'' ''b'' False True"]
      updates_keep_ids [of "''7''" "example_app [example_window ''7'' ''b'']
        [example_note ''1'' ''a'' True True] []" "example_note ''7'' ''b'' False True"]
    by (simp add: example_note_def)
qed

text \<open>
  The claim as it was worded fails: after a note was created and closed, its record
  still says open; \<open>update_closed_note\<close> with a record of unknown id then changes the
  store, through \<open>refresh_note_list\<close>.
\<close>

theorem update_closed_note_unknown_id_counterexample:
  "find_note ''7'' (all_notes (run [NewNote example_env, Close 0] first_launch)) = None
   \<and> all_notes (update_closed_note (example_note ''7'' ''b'' False True)
         (run [NewNote example_env, Close 0] first_launch))
       \<noteq> all_notes (run [NewNote example_env, Close 0] first_launch)"
  by code_simp

section \<open>No operation takes was_open back\<close>

lemma was_open_kept_refl: "was_open_kept a a"
  by (simp add: was_open_kept_def)

lemma was_open_kept_trans: "was_open_kept a b \<Longrightarrow> was_open_kept b c \<Longrightarrow> was_open_kept a c"
  by (simp add: was_open_kept_def)

lemma kept_refl: "list_all2 was_open_kept ns ns"
  by (simp add: list_all2_refl was_open_kept_refl)

lemma kept_trans:
  "list_all2 was_open_kept xs ys \<Longrightarrow> list_all2 was_open_kept ys zs \<Longrightarrow> list_all2 was_open_kept xs zs"
  using list_all2_trans [of was_open_kept was_open_kept was_open_kept xs ys zs]
    was_open_kept_trans by blast

lemma keeps_refl: "keeps ns ns"
  by (simp add: keeps_def kept_refl)

lemma keeps_same: "list_all2 was_open_kept xs ys \<Longrightarrow> keeps xs ys"
  by (simp add: keeps_def list_all2_lengthD)

lemma keeps_trans:
  assumes "keeps xs ys" and "keeps ys zs"
  shows "keeps xs zs"
proof -
  from assms have len: "length xs \<le> length ys" "length ys \<le> length zs"
    and a: "list_all2 was_open_kept xs (take (length xs) ys)"
    and b: "list_all2 was_open_kept ys (take (length ys) zs)"
    by (simp_all add: keeps_def)
  from b have "list_all2 was_open_kept (take (length xs) ys) (take (length xs) (take (length ys) zs))"
    by (rule list_all2_takeI)
  with len have "list_all2 was_open_kept (take (length xs) ys) (take (length xs) zs)"
    by (simp add: min_def)
  with a have "list_all2 was_open_kept xs (take (length xs) zs)"
    by (rule kept_trans)
  with len show ?thesis by (simp add: keeps_def)
qed

lemma keeps_append: "keeps xs ys \<Longrightarrow> keeps xs (ys @ zs)"
  by (simp add: keeps_def)

lemma update_first_kept:
  "(\<And>n. n_id n = k \<Longrightarrow> was_open_kept n (f n)) \<Longrightarrow> list_all2 was_open_kept ns (update_first k f ns)"
  by (induction ns) (auto simp: kept_refl was_open_kept_refl)

lemma get_note_data_kept: "n_id n = note_id w \<Longrightarrow> was_open_kept n (get_note_data w)"
  by (simp add: was_open_kept_def get_note_data_def)

lemma pull_windows_kept: "list_all2 was_open_kept ns (snd (pull_windows ws (ids, ns)))"
proof (induction ws arbitrary: ids ns)
  case Nil
  show ?case by (simp add: kept_refl)
next
  case (Cons w ws)
  show ?case
  proof (cases "winfo_exists w")
    case True
    have "list_all2 was_open_kept ns (update_first (note_id w) (\<lambda>_. get_note_data w) ns)"
      by (rule update_first_kept) (simp add: get_note_data_kept)
    with Cons.IH [where ids = "note_id w # ids"
        and ns = "update_first (note_id w) (\<lambda>_. get_note_data w) ns"] True
    show ?thesis by (auto intro: kept_trans)
  next
    case False
    with Cons.IH [where ids = ids and ns = ns] show ?thesis by simp
  qed
qed

lemma mark_closed_kept: "list_all2 was_open_kept ns (mark_closed ids ns)"
  by (simp add: mark_closed_def list_all2_map2 list_all2_refl was_open_kept_def)

lemma reconcile_kept: "list_all2 was_open_kept ns (reconcile ws ns)"
proof (cases "pull_windows ws ([], ns)")
  case (Pair ids ns')
  with pull_windows_kept [of ns ws "[]"] have "list_all2 was_open_kept ns ns'" by simp
  moreover have "list_all2 was_open_kept ns' (mark_closed ids ns')" by (rule mark_closed_kept)
  ultimately show ?thesis using Pair by (auto simp: reconcile_def intro: kept_trans)
qed

lemma reconcile_keeps: "keeps ns ns' \<Longrightarrow> keeps ns (reconcile ws ns')"
  by (erule keeps_trans) (rule keeps_same, rule reconcile_kept)

lemma update_first_keeps:
  "(\<And>n. n_id n = k \<Longrightarrow> was_open_kept n (f n)) \<Longrightarrow> keeps ns (update_first k f ns)"
  by (rule keeps_same) (rule update_first_kept)

lemma mark_was_open_keeps: "keeps ns (mark_was_open ws ns)"
proof (induction ws arbitrary: ns)
  case Nil
  show ?case by (simp add: keeps_refl)
next
  case (Cons w ws)
  have "keeps ns (update_first (note_id w) (\<lambda>n. n\<lparr> n_was_open := True \<rparr>) ns)"
    by (rule update_first_keeps) (simp add: was_open_kept_def)
  with Cons show ?case by (auto intro: keeps_trans)
qed

lemma create_new_note_sel:
  "windows (create_new_note e nd s) = windows s @
     [case nd of
        Some d \<Rightarrow> (StickyNote_init e (Some (n_id d)) (n_text d) (Some (n_x d)) (Some (n_y d)) (n_color d))
                    \<lparr> geometry_width := n_width d, geometry_height := n_height d \<rparr>
      | None \<Rightarrow> StickyNote_init e None [] None None ''#FFFF99'']"
  "notes_file (create_new_note e nd s) = notes_file s"
  by (simp_all add: create_new_note_def Let_def)

lemma create_new_note_keeps: "keeps (all_notes s) (all_notes (create_new_note e nd s))"
  by (auto simp: create_new_note_def Let_def keeps_refl get_note_data_kept
      split: option.split
      intro!: reconcile_keeps keeps_append update_first_keeps)

lemma refresh_keeps: "keeps (all_notes s) (all_notes (refresh_note_list s))"
  by (simp add: reconcile_keeps keeps_refl)

lemma save_keeps: "keeps (all_notes s) (all_notes (save_notes s))"
  by (simp add: reconcile_keeps keeps_refl)

lemma update_note_in_list_keeps: "keeps (all_notes s) (all_notes (update_note_in_list k s))"
  by (auto simp: update_note_in_list_sel keeps_refl get_note_data_kept
      split: option.split dest!: find_window_Some
      intro!: reconcile_keeps update_first_keeps)

lemma save_note_keeps: "keeps (all_notes s) (all_notes (save_note i s))"
  unfolding save_note_def
  by (rule keeps_trans [OF save_keeps update_note_in_list_keeps])

lemma save_note_sel [simp]:
  "windows (save_note i s) = windows s"
  by (simp add: save_note_def update_note_in_list_sel)

lemma on_close_keeps: "keeps (all_notes s) (all_notes (on_close i s))"
proof -
  let ?s' = "save_note i s"
  let ?d = "(get_note_data (windows ?s' ! i))\<lparr> n_is_open := False, n_was_open := True \<rparr>"
  have "keeps (all_notes ?s') (all_notes (update_closed_note ?d ?s'))"
    unfolding update_closed_note_sel
    by (intro reconcile_keeps update_first_keeps) (simp add: was_open_kept_def)
  with save_note_keeps [of s i] have "keeps (all_notes s) (all_notes (update_closed_note ?d ?s'))"
    by (rule keeps_trans)
  then show ?thesis by (simp add: on_close_def Let_def)
qed

lemma change_color_keeps: "keeps (all_notes s) (all_notes (change_color i chosen s))"
proof (cases chosen)
  case None
  then show ?thesis by (simp add: change_color_def keeps_refl)
next
  case (Some color)
  let ?s0 = "s\<lparr> windows := (windows s)[i := (windows s ! i)\<lparr> bg := color \<rparr>] \<rparr>"
  have "keeps (all_notes ?s0) (all_notes (save_note i ?s0))" by (rule save_note_keeps)
  then have "keeps (all_notes s) (all_notes (save_note i ?s0))" by simp
  then have "keeps (all_notes s)
      (all_notes (update_note_in_list (note_id (windows (save_note i ?s0) ! i)) (save_note i ?s0)))"
    by (rule keeps_trans) (rule update_note_in_list_keeps)
  with Some show ?thesis by (simp add: change_color_def Let_def keeps_refl)
qed

lemma open_selected_note_keeps: "keeps (all_notes s) (all_notes (open_selected_note e s))"
proof -
  have "keeps (all_notes s) (all_notes (create_new_note e nd
          (s\<lparr> all_notes := update_first k (\<lambda>n. n\<lparr> n_is_open := True \<rparr>) (all_notes s) \<rparr>)))" for k nd
  proof -
    let ?s1 = "s\<lparr> all_notes := update_first k (\<lambda>n. n\<lparr> n_is_open := True \<rparr>) (all_notes s) \<rparr>"
    have "keeps (all_notes s) (all_notes ?s1)"
      by (simp, rule update_first_keeps) (simp add: was_open_kept_def)
    then show ?thesis by (rule keeps_trans) (rule create_new_note_keeps)
  qed
  then show ?thesis
    by (simp add: open_selected_note_def keeps_refl split: option.split)
qed

lemma change_selected_note_color_keeps:
  "keeps (all_notes s) (all_notes (change_selected_note_color chosen s))"
proof -
  have "keeps (all_notes s)
     (reconcile ws' (reconcile ws' (update_first k (\<lambda>n. n\<lparr> n_color := color \<rparr>) (all_notes s))))"
    for ws' k color
    by (intro reconcile_keeps update_first_keeps) (simp add: was_open_kept_def)
  then show ?thesis
    by (simp add: change_selected_note_color_def Let_def keeps_refl split: option.split)
qed

lemma reopen_keeps: "keeps (all_notes s) (all_notes (reopen clock i ds s))"
proof (induction ds arbitrary: i s)
  case Nil
  show ?case by (simp add: keeps_refl)
next
  case (Cons d ds)
  have "keeps (all_notes s) (all_notes (create_new_note (clock i) (Some d) s))"
    by (rule create_new_note_keeps)
  then show ?case
    by (simp, rule keeps_trans) (rule Cons.IH)
qed

lemma load_notes_keeps:
  "notes_file s = Some content \<Longrightarrow> keeps content (all_notes (load_notes clock s))"
proof -
  assume f: "notes_file s = Some content"
  let ?s' = "refresh_note_list (s\<lparr> all_notes := content \<rparr>)"
  have "keeps content (all_notes ?s')"
    by (simp add: reconcile_keeps keeps_refl)
  then have "keeps content (all_notes (reopen clock 0 xs ?s'))" for xs
    by (rule keeps_trans) (rule reopen_keeps)
  with f show ?thesis by (simp add: load_notes_def Let_def)
qed

lemma on_exit_file:
  "notes_file (on_exit s) = Some (reconcile (windows s) (mark_was_open (windows s) (all_notes s)))"
  by (simp add: on_exit_def Let_def)

lemma relaunch_keeps:
  "keeps (all_notes s) (all_notes (StickyNoteApp_init clock default_bg (notes_file (on_exit s))))"
proof -
  let ?c = "reconcile (windows s) (mark_was_open (windows s) (all_notes s))"
  have "keeps (all_notes s) ?c"
    by (intro reconcile_keeps mark_was_open_keeps)
  moreover have "keeps ?c (all_notes (StickyNoteApp_init clock default_bg (Some ?c)))"
    unfolding StickyNoteApp_init_def by (rule load_notes_keeps) simp
  ultimately show ?thesis
    unfolding on_exit_file by (rule keeps_trans)
qed

lemma on_window_sel [simp]:
  "all_notes (on_window i f s) = all_notes s"
  "notes_file (on_window i f s) = notes_file s"
  by (simp_all add: on_window_def)

lemma step_keeps: "\<not> is_delete a \<Longrightarrow> keeps (all_notes s) (all_notes (step a s))"
proof (cases a)
  case (NewNote e)
  then show ?thesis by (simp add: create_new_note_keeps)
next
  case (OpenSelected e)
  then show ?thesis by (simp add: open_selected_note_keeps)
next
  case (RecolorSelected c)
  then show ?thesis by (simp add: change_selected_note_color_keeps)
next
  case Refresh
  then show ?thesis using refresh_keeps [of s] by simp
next
  case (FocusOut i)
  then show ?thesis using save_note_keeps [of "idle s" i] by (simp add: keeps_refl)
next
  case (Recolor i c)
  then show ?thesis using change_color_keeps [of "idle s" i c] by (simp add: keeps_refl)
next
  case (Close i)
  then show ?thesis using on_close_keeps [of "idle s" i] by (simp add: keeps_refl)
next
  case (Relaunch clock default_bg)
  then show ?thesis by (simp add: relaunch_keeps)
qed (simp_all add: keeps_refl)

text \<open>
  Claim C5. Along any sequence of events that contains no deletion (creating, typing,
  moving, resizing, losing focus, recolouring, closing, reopening, refreshing, searching,
  leaving and starting again on the saved file), every record of the store stays at
  its position with its id, and a record whose \<open>was_open\<close> is true keeps it true.
\<close>

theorem was_open_monotone:
  "list_all (\<lambda>a. \<not> is_delete a) acts \<Longrightarrow> keeps (all_notes s) (all_notes (run acts s))"
proof (induction acts arbitrary: s)
  case Nil
  show ?case by (simp add: keeps_refl)
next
  case (Cons a acts)
  then have "keeps (all_notes s) (all_notes (step a s))"
    and "keeps (all_notes (step a s)) (all_notes (run acts (step a s)))"
    by (simp_all add: step_keeps)
  then show ?case by (simp add: keeps_trans)
qed

theorem was_open_monotone_witness:
  "list_all (\<lambda>a. \<not> is_delete a)
     [NewNote example_env, FocusOut 0, Close 0, Refresh, SelectRow 0, RecolorSelected (Some ''#00FF00''),
      Relaunch (\<lambda>i. example_env) ''white'']
   \<and> keeps [example_note ''20230101120000'' ''a'' False True]
       (all_notes (run [NewNote example_env, FocusOut 0, Close 0, Refresh, SelectRow 0,
                        RecolorSelected (Some ''#00FF00''), Relaunch (\<lambda>i. example_env) ''white'']
                    (example_app [] [example_note ''20230101120000'' ''a'' False True] [])))"
proof -
  let ?acts = "[NewNote example_env, FocusOut 0, Close 0, Refresh, SelectRow 0,
      RecolorSelected (Some ''#00FF00''), Relaunch (\<lambda>i. example_env) ''white'']"
  let ?s = "example_app [] [example_note ''20230101120000'' ''a'' False True] []"
  have h: "list_all (\<lambda>a. \<not> is_delete a) ?acts" by simp
  have "all_notes ?s = [example_note ''20230101120000'' ''a'' False True]"
    by (simp add: example_app_def)
  with was_open_monotone [OF h, of ?s] h show ?thesis by simp
qed

section \<open>What reconciling does to the record of one id\<close>

lemma find_note_update_first_same:
  "(\<And>n. n_id n = k \<Longrightarrow> n_id (f n) = k) \<Longrightarrow>
   find_note k (update_first k f ns) = map_option f (find_note k ns)"
  unfolding find_note_def by (induction ns) auto

lemma find_note_update_first_other:
  "k \<noteq> k' \<Longrightarrow> (\<And>n. n_id n = k' \<Longrightarrow> n_id (f n) = k') \<Longrightarrow>
   find_note k (update_first k' f ns) = find_note k ns"
  unfolding find_note_def by (induction ns) auto

lemma find_note_ids: "find_note k ns \<noteq> None \<longleftrightarrow> k \<in> set (map n_id ns)"
  by (simp add: find_note_None)

lemma pull_windows_open_ids:
  "set (fst (pull_windows ws (ids, ns))) =
   set ids \<union> {note_id w |w. w \<in> set ws \<and> winfo_exists w}"
  by (induction ws arbitrary: ids ns) auto

lemma find_note_pull_live:
  "find_note k ns = Some r \<Longrightarrow>
   n_is_open r \<or> (\<exists>w \<in> set ws. winfo_exists w \<and> note_id w = k) \<Longrightarrow>
   \<exists>r'. find_note k (snd (pull_windows ws (ids, ns))) = Some r' \<and> n_is_open r'"
proof (induction ws arbitrary: ids ns r)
  case Nil
  then show ?case by simp
next
  case (Cons w ws)
  show ?case
  proof (cases "winfo_exists w")
    case False
    with Cons.prems have "n_is_open r \<or> (\<exists>w \<in> set ws. winfo_exists w \<and> note_id w = k)"
      by auto
    with Cons.IH [OF Cons.prems(1)] False show ?thesis by simp
  next
    case True
    let ?ns = "update_first (note_id w) (\<lambda>_. get_note_data w) ns"
    show ?thesis
    proof (cases "note_id w = k")
      case same: True
      have "find_note k ?ns = Some (get_note_data w)"
        using Cons.prems(1) same
        by (simp add: find_note_update_first_same get_note_data_def)
      moreover have "n_is_open (get_note_data w)" by (simp add: get_note_data_def)
      ultimately obtain r' where
        "find_note k (snd (pull_windows ws (note_id w # ids, ?ns))) = Some r' \<and> n_is_open r'"
        using Cons.IH [of ?ns "get_note_data w" "note_id w # ids"] by blast
      with True show ?thesis by auto
    next
      case other: False
      then have "find_note k ?ns = Some r"
        using Cons.prems(1)
        by (simp add: find_note_update_first_other get_note_data_def)
      moreover from Cons.prems(2) other
      have "n_is_open r \<or> (\<exists>w \<in> set ws. winfo_exists w \<and> note_id w = k)" by auto
      ultimately obtain r' where
        "find_note k (snd (pull_windows ws (note_id w # ids, ?ns))) = Some r' \<and> n_is_open r'"
        using Cons.IH [of ?ns r "note_id w # ids"] by blast
      with True show ?thesis by auto
    qed
  qed
qed

lemma find_note_pull_dead:
  "\<forall>w \<in> set ws. \<not> (winfo_exists w \<and> note_id w = k) \<Longrightarrow>
   find_note k (snd (pull_windows ws (ids, ns))) = find_note k ns"
proof (induction ws arbitrary: ids ns)
  case Nil
  show ?case by simp
next
  case (Cons w ws)
  then have rest: "\<forall>w \<in> set ws. \<not> (winfo_exists w \<and> note_id w = k)" by simp
  show ?case
  proof (cases "winfo_exists w")
    case False
    with Cons.IH [OF rest] show ?thesis by simp
  next
    case True
    with Cons.prems have "k \<noteq> note_id w" by auto
    then have "find_note k (update_first (note_id w) (\<lambda>_. get_note_data w) ns) = find_note k ns"
      by (simp add: find_note_update_first_other get_note_data_def)
    with Cons.IH [OF rest] True show ?thesis by simp
  qed
qed

lemma find_note_mark_closed:
  "find_note k (mark_closed ids ns) =
   map_option (\<lambda>n. if k \<notin> set ids then n\<lparr> n_is_open := False \<rparr> else n) (find_note k ns)"
  unfolding find_note_def mark_closed_def by (induction ns) auto

lemma reconcile_find_live:
  assumes "find_note k ns \<noteq> None" and "\<exists>w \<in> set ws. winfo_exists w \<and> note_id w = k"
  shows "\<exists>r. find_note k (reconcile ws ns) = Some r \<and> n_is_open r"
proof -
  obtain ids ns' where p: "pull_windows ws ([], ns) = (ids, ns')"
    by (cases "pull_windows ws ([], ns)")
  from assms(1) obtain r0 where "find_note k ns = Some r0" by auto
  with assms(2) find_note_pull_live [of k ns r0 ws "[]"] p
  obtain r' where r': "find_note k ns' = Some r'" "n_is_open r'" by auto
  from assms(2) pull_windows_open_ids [of ws "[]" ns] p have "k \<in> set ids" by auto
  with r' p show ?thesis by (simp add: reconcile_def find_note_mark_closed)
qed

lemma reconcile_find_dead:
  assumes "find_note k ns \<noteq> None" and "\<forall>w \<in> set ws. \<not> (winfo_exists w \<and> note_id w = k)"
  shows "\<exists>r. find_note k (reconcile ws ns) = Some r \<and> \<not> n_is_open r"
proof -
  obtain ids ns' where p: "pull_windows ws ([], ns) = (ids, ns')"
    by (cases "pull_windows ws ([], ns)")
  from assms(1) obtain r0 where r0: "find_note k ns = Some r0" by auto
  from find_note_pull_dead [OF assms(2), of "[]" ns] p r0 have "find_note k ns' = Some r0" by simp
  moreover from assms(2) pull_windows_open_ids [of ws "[]" ns] p have "k \<notin> set ids" by auto
  ultimately show ?thesis using p by (simp add: reconcile_def find_note_mark_closed)
qed

section \<open>Closing a window\<close>

lemma on_close_sel:
  "notes_file (on_close i s) = Some (reconcile (windows s) (all_notes s))"
  "windows (on_close i s) = (windows s)[i := (windows s ! i)\<lparr> winfo_exists := False \<rparr>]"
  "all_notes (on_close i s) =
     reconcile (windows s)
       (update_first (note_id (windows s ! i))
          (\<lambda>_. (get_note_data (windows s ! i))\<lparr> n_is_open := False, n_was_open := True \<rparr>)
          (all_notes (save_note i s)))"
  by (simp_all add: on_close_def Let_def update_closed_note_sel save_note_def
      update_note_in_list_sel get_note_data_def)

lemma save_note_ids: "map n_id (all_notes (save_note i s)) = map n_id (all_notes s)"
  by (simp add: save_note_def update_note_in_list_ids reconcile_ids)

text \<open>
  Claim C9. \<open>on_close\<close> on an existing window whose id \<open>k\<close> has a record: the file it
  leaves is the one \<open>save_notes\<close> wrote before the record was marked closed; in that file
  and in the store the record of \<open>k\<close> still says open when \<open>on_close\<close> returns, because
  \<open>update_closed_note\<close> refreshes while the window still exists; the window is gone
  afterwards; and the next \<open>refresh_note_list\<close> sets the record to closed, provided no
  other existing window bears the id.
\<close>

theorem on_close_leaves_record_open:
  assumes lv: "live i s"
    and k: "k = note_id (windows s ! i)"
    and rec: "find_note k (all_notes s) \<noteq> None"
  shows "notes_file (on_close i s) = notes_file (save_notes s)
    \<and> (\<exists>content r. notes_file (on_close i s) = Some content
          \<and> find_note k content = Some r \<and> n_is_open r)
    \<and> (\<exists>r. find_note k (all_notes (on_close i s)) = Some r \<and> n_is_open r)
    \<and> \<not> winfo_exists (windows (on_close i s) ! i)
    \<and> ((\<forall>j < length (windows s). j \<noteq> i \<longrightarrow>
            \<not> (winfo_exists (windows s ! j) \<and> note_id (windows s ! j) = k))
        \<longrightarrow> (\<exists>r. find_note k (all_notes (refresh_note_list (on_close i s))) = Some r
               \<and> \<not> n_is_open r))"
proof -
  let ?ws = "windows s"
  let ?d = "(get_note_data (?ws ! i))\<lparr> n_is_open := False, n_was_open := True \<rparr>"
  let ?pre = "update_first k (\<lambda>_. ?d) (all_notes (save_note i s))"
  from lv have i: "i < length ?ws" and ex: "winfo_exists (?ws ! i)"
    by (simp_all add: live_def)
  then have w: "\<exists>w \<in> set ?ws. winfo_exists w \<and> note_id w = k"
    using k nth_mem by blast
  have same_file: "notes_file (on_close i s) = notes_file (save_notes s)"
    by (simp add: on_close_sel)
  from reconcile_find_live [OF rec w]
  have saved: "\<exists>content r. notes_file (on_close i s) = Some content
      \<and> find_note k content = Some r \<and> n_is_open r"
    by (simp add: on_close_sel)
  have "map n_id ?pre = map n_id (all_notes s)"
    using k by (simp add: update_first_ids get_note_data_def save_note_ids)
  with rec have pre: "find_note k ?pre \<noteq> None"
    by (metis find_note_ids)
  have store_eq: "all_notes (on_close i s) = reconcile ?ws ?pre"
    using k by (simp add: on_close_sel)
  from reconcile_find_live [OF pre w]
  have store: "\<exists>r. find_note k (all_notes (on_close i s)) = Some r \<and> n_is_open r"
    by (simp add: store_eq)
  have gone: "\<not> winfo_exists (windows (on_close i s) ! i)"
    using i by (simp add: on_close_sel)
  have later: "\<exists>r. find_note k (all_notes (refresh_note_list (on_close i s))) = Some r
      \<and> \<not> n_is_open r"
    if alone: "\<forall>j < length ?ws. j \<noteq> i \<longrightarrow> \<not> (winfo_exists (?ws ! j) \<and> note_id (?ws ! j) = k)"
  proof -
    let ?ws' = "?ws[i := (?ws ! i)\<lparr> winfo_exists := False \<rparr>]"
    have dead: "\<forall>w \<in> set ?ws'. \<not> (winfo_exists w \<and> note_id w = k)"
    proof
      fix w assume "w \<in> set ?ws'"
      then obtain j where j: "j < length ?ws" "w = ?ws' ! j"
        by (auto simp: in_set_conv_nth)
      show "\<not> (winfo_exists w \<and> note_id w = k)"
      proof (cases "j = i")
        case True
        with j show ?thesis by simp
      next
        case False
        with j alone show ?thesis by simp
      qed
    qed
    from store have "find_note k (all_notes (on_close i s)) \<noteq> None" by auto
    from reconcile_find_dead [OF this dead]
    show ?thesis by (simp add: on_close_sel(2))
  qed
  from same_file saved store gone later show ?thesis by blast
qed

theorem on_close_leaves_record_open_witness:
  "live 0 (run [NewNote example_env, TypeText 0 ''hello''] first_launch)
   \<and> find_note ''20240101120000''
       (all_notes (run [NewNote example_env, TypeText 0 ''hello''] first_launch)) \<noteq> None
   \<and> (\<exists>r. find_note ''20240101120000''
         (all_notes (on_close 0 (run [NewNote example_env, TypeText 0 ''hello''] first_launch)))
         = Some r \<and> n_is_open r)
   \<and> (\<exists>r. find_note ''20240101120000''
         (all_notes (refresh_note_list
            (on_close 0 (run [NewNote example_env, TypeText 0 ''hello''] first_launch))))
         = Some r \<and> \<not> n_is_open r)"
proof -
  let ?s = "run [NewNote example_env, TypeText 0 ''hello''] first_launch"
  have lv: "live 0 ?s" by code_simp
  have k: "''20240101120000'' = note_id (windows ?s ! 0)" by code_simp
  have rec: "find_note ''20240101120000'' (all_notes ?s) \<noteq> None" by code_simp
  have alone: "\<forall>j < length (windows ?s). j \<noteq> 0 \<longrightarrow>
      \<not> (winfo_exists (windows ?s ! j) \<and> note_id (windows ?s ! j) = ''20240101120000'')"
  proof -
    have "length (windows ?s) = 1" by code_simp
    then show ?thesis by simp
  qed
  from on_close_leaves_record_open [OF lv k rec] alone lv rec
  show ?thesis by blast
qed

section \<open>Where the program departs from its specification\<close>

text \<open>
  Claim C3, at a failing input. The button for a new note is pressed twice within one
  second: the second record is appended with the id of the first, where
  \<open>create_new_note\<close> called with a record would have overwritten.
\<close>

theorem new_note_same_second_duplicates_id:
  "map n_id (all_notes (run [NewNote example_env, NewNote example_env] first_launch))
     = [''20240101120000'', ''20240101120000'']
   \<and> \<not> distinct (map n_id (all_notes (run [NewNote example_env, NewNote example_env] first_launch)))"
  by code_simp

text \<open>
  Claim C1, at a failing input. Two notes are created within one second, both are
  closed, the list is refreshed, and the note is opened again from the list. Right
  after \<open>refresh_note_list\<close> the second record says closed although a window with its id
  exists: the refresh overwrites only the first record of an id.
\<close>

theorem refresh_misses_second_record_of_id:
  "map (\<lambda>n. (n_id n, n_is_open n))
     (all_notes (refresh_note_list
        (run [NewNote example_env, NewNote example_env, Close 0, Close 1, Refresh,
              SelectRow 0, OpenSelected example_env] first_launch)))
     = [(''20240101120000'', True), (''20240101120000'', False)]
   \<and> map (\<lambda>w. (note_id w, winfo_exists w))
     (windows (refresh_note_list
        (run [NewNote example_env, NewNote example_env, Close 0, Close 1, Refresh,
              SelectRow 0, OpenSelected example_env] first_launch)))
     = [(''20240101120000'', False), (''20240101120000'', False), (''20240101120000'', True)]"
  by code_simp

text \<open>
  Claim C2, at a failing input. A note is created, \<open>hello\<close> is typed, the window loses
  focus and is closed. The record holds the text and \<open>was_open\<close>, but \<open>is_open\<close> is still
  true when \<open>on_close\<close> has returned, and the list view shows the note as open.
\<close>

theorem closed_note_still_marked_open:
  "map (\<lambda>n. (n_text n, n_is_open n, n_was_open n))
     (all_notes (run [NewNote example_env, TypeText 0 ''hello'', FocusOut 0, Close 0] first_launch))
     = [(''hello'', True, True)]
   \<and> map r_status
     (tree (run [NewNote example_env, TypeText 0 ''hello'', FocusOut 0, Close 0] first_launch))
     = [StatusOpen]
   \<and> map winfo_exists
     (windows (run [NewNote example_env, TypeText 0 ''hello'', FocusOut 0, Close 0] first_launch))
     = [False]"
  by code_simp

text \<open>
  Claim C4, at a failing input. The file holds one record with \<open>is_open\<close> true and
  \<open>was_open\<close> false. \<open>load_notes\<close> refreshes before it selects the records to open; no
  window exists yet, so \<open>is_open\<close> has been cleared by then and no window is opened.
\<close>

theorem load_forgets_is_open:
  "windows (StickyNoteApp_init (\<lambda>i. example_env) ''white''
      (Some [example_note ''20230101120000'' ''a'' True False])) = []
   \<and> map n_is_open (all_notes (StickyNoteApp_init (\<lambda>i. example_env) ''white''
      (Some [example_note ''20230101120000'' ''a'' True False]))) = [False]"
  by code_simp

section \<open>What holds apart from the departures\<close>

lemma find_note_distinct:
  "distinct (map n_id ns) \<Longrightarrow> r \<in> set ns \<Longrightarrow> find_note (n_id r) ns = Some r"
  unfolding find_note_def by (induction ns) (auto simp: image_iff)

text \<open>
  On a store without two records of one id, \<open>refresh_note_list\<close> leaves every record
  open exactly when an existing window bears its id.
\<close>

lemma refresh_sync_distinct_ids:
  assumes d: "distinct (map n_id (all_notes s))"
    and r: "r \<in> set (all_notes (refresh_note_list s))"
  shows "n_is_open r \<longleftrightarrow> (\<exists>w \<in> set (windows s). winfo_exists w \<and> note_id w = n_id r)"
proof -
  let ?ns' = "reconcile (windows s) (all_notes s)"
  from r have r': "r \<in> set ?ns'" by simp
  from d have "distinct (map n_id ?ns')" by (simp add: reconcile_ids)
  with r' have f: "find_note (n_id r) ?ns' = Some r" by (rule find_note_distinct [rotated])
  from r' have "n_id r \<in> set (map n_id ?ns')" by simp
  then have "n_id r \<in> set (map n_id (all_notes s))" by (simp only: reconcile_ids)
  then have known: "find_note (n_id r) (all_notes s) \<noteq> None" by (simp only: find_note_ids)
  show ?thesis
  proof (cases "\<exists>w \<in> set (windows s). winfo_exists w \<and> note_id w = n_id r")
    case True
    from reconcile_find_live [OF known True] f True show ?thesis by simp
  next
    case False
    then have "\<forall>w \<in> set (windows s). \<not> (winfo_exists w \<and> note_id w = n_id r)" by simp
    from reconcile_find_dead [OF known this] f False show ?thesis by simp
  qed
qed

lemma reopen_windows:
  "\<forall>d \<in> set ds. n_id d \<noteq> [] \<Longrightarrow>
   map note_id (windows (reopen clock i ds s)) = map note_id (windows s) @ map n_id ds
   \<and> (list_all winfo_exists (windows s) \<longrightarrow> list_all winfo_exists (windows (reopen clock i ds s)))"
proof (induction ds arbitrary: i s)
  case Nil
  show ?case by simp
next
  case (Cons d ds)
  let ?s1 = "create_new_note (clock i) (Some d) s"
  from Cons.prems have d: "n_id d \<noteq> []" and ds: "\<forall>d \<in> set ds. n_id d \<noteq> []" by simp_all
  have w1: "map note_id (windows ?s1) = map note_id (windows s) @ [n_id d]"
    using d by (cases "clock i") (simp add: create_new_note_sel)
  have e1: "list_all winfo_exists (windows s) \<longrightarrow> list_all winfo_exists (windows ?s1)"
    by (cases "clock i") (simp add: create_new_note_sel)
  from Cons.IH [OF ds, of "Suc i" ?s1] w1 e1 show ?case by simp
qed

text \<open>
  A start on a file whose records all have an id opens one window for each record with
  \<open>was_open\<close> true, in the order of the file, and for no other record.
\<close>

lemma load_opens_was_open:
  assumes "\<forall>n \<in> set content. n_id n \<noteq> []"
  shows "map note_id (windows (StickyNoteApp_init clock default_bg (Some content)))
           = map n_id (filter n_was_open content)
         \<and> list_all winfo_exists (windows (StickyNoteApp_init clock default_bg (Some content)))"
proof -
  let ?s0 = "\<lparr> windows = [], all_notes = [], search_var = [], tree = [], selection = None,
              preview = \<lparr> p_text = [], p_bg = default_bg \<rparr>, notes_file = Some content \<rparr>"
  let ?s' = "refresh_note_list (?s0\<lparr> all_notes := content \<rparr>)"
  let ?open = "filter (\<lambda>note. n_is_open note \<or> n_was_open note) (all_notes ?s')"
  have store: "all_notes ?s' = map (\<lambda>n. n\<lparr> n_is_open := False \<rparr>) content"
    by (simp add: reconcile_def mark_closed_def)
  have ids: "map n_id ?open = map n_id (filter n_was_open content)"
    unfolding store by (induction content) auto
  have "\<forall>d \<in> set ?open. n_id d \<noteq> []"
    using assms unfolding store by auto
  from reopen_windows [OF this, of clock 0 ?s'] ids
  have "map note_id (windows (reopen clock 0 ?open ?s')) = map n_id (filter n_was_open content)
      \<and> list_all winfo_exists (windows (reopen clock 0 ?open ?s'))"
    by simp
  then show ?thesis
    by (simp add: StickyNoteApp_init_def load_notes_def Let_def)
qed

section \<open>Which events keep the ids of the store distinct\<close>

lemma delete_first_distinct: "distinct (map n_id ns) \<Longrightarrow> distinct (map n_id (delete_first k ns))"
proof (induction ns)
  case Nil
  show ?case by simp
next
  case (Cons n ns)
  have "set (delete_first k ns) \<subseteq> set ns" for ns
    by (induction ns) auto
  with Cons show ?case by auto
qed

lemma mark_was_open_ids: "map n_id (mark_was_open ws ns) = map n_id ns"
  by (induction ws arbitrary: ns) (simp_all add: update_first_ids)

lemma create_new_note_distinct:
  assumes d: "distinct (map n_id (all_notes s))"
    and fresh: "nd = None \<longrightarrow> fst e \<notin> set (map n_id (all_notes s))"
  shows "distinct (map n_id (all_notes (create_new_note e nd s)))"
proof (cases nd)
  case None
  obtain now rx ry where e: "e = (now, rx, ry)" by (cases e)
  from None fresh e have "now \<notin> set (map n_id (all_notes s))" by simp
  with d None e show ?thesis
    by (simp add: create_new_note_def Let_def reconcile_ids get_note_data_def)
next
  case (Some r)
  let ?w = "(StickyNote_init e (Some (n_id r)) (n_text r) (Some (n_x r)) (Some (n_y r)) (n_color r))
              \<lparr> geometry_width := n_width r, geometry_height := n_height r \<rparr>"
  have "distinct (map n_id
      (case find_note (note_id ?w) (all_notes s) of
         Some existing_note \<Rightarrow> update_first (note_id ?w) (\<lambda>_. get_note_data ?w) (all_notes s)
       | None \<Rightarrow> all_notes s @ [get_note_data ?w]))"
  proof (cases "find_note (note_id ?w) (all_notes s)")
    case None
    then have "note_id ?w \<notin> n_id ` set (all_notes s)" by (simp add: find_note_None)
    with d None show ?thesis by (simp add: get_note_data_def)
  next
    case (Some existing)
    have "map n_id (update_first (note_id ?w) (\<lambda>_. get_note_data ?w) (all_notes s))
        = map n_id (all_notes s)"
      by (rule update_first_ids) (simp add: get_note_data_def)
    with d Some show ?thesis by simp
  qed
  with Some show ?thesis
    by (simp add: create_new_note_def Let_def reconcile_ids)
qed

lemma reopen_distinct:
  "distinct (map n_id (all_notes s)) \<Longrightarrow> distinct (map n_id (all_notes (reopen clock i ds s)))"
  by (induction ds arbitrary: i s) (simp_all add: create_new_note_distinct)

lemma on_close_ids: "map n_id (all_notes (on_close i s)) = map n_id (all_notes s)"
  by (simp add: on_close_sel reconcile_ids update_first_ids get_note_data_def save_note_ids)

lemma change_color_ids: "map n_id (all_notes (change_color i chosen s)) = map n_id (all_notes s)"
proof (cases chosen)
  case None
  then show ?thesis by (simp add: change_color_def)
next
  case (Some color)
  let ?s0 = "s\<lparr> windows := (windows s)[i := (windows s ! i)\<lparr> bg := color \<rparr>] \<rparr>"
  have "map n_id (all_notes (update_note_in_list k (save_note i ?s0))) = map n_id (all_notes s)" for k
    by (simp add: update_note_in_list_ids save_note_ids)
  with Some show ?thesis by (simp add: change_color_def Let_def)
qed

text \<open>
  Every event keeps the ids of the store distinct, except the button for a new note
  pressed while a record already bears the current clock reading.
\<close>

lemma step_distinct:
  assumes d: "distinct (map n_id (all_notes s))"
    and fresh: "\<And>e. a = NewNote e \<Longrightarrow> fst e \<notin> set (map n_id (all_notes s))"
  shows "distinct (map n_id (all_notes (step a s)))"
proof (cases a)
  case (NewNote e)
  with d fresh show ?thesis by (simp add: create_new_note_distinct)
next
  case (OpenSelected e)
  have "distinct (map n_id (all_notes (create_new_note e (Some r)
      (s\<lparr> all_notes := update_first k (\<lambda>n. n\<lparr> n_is_open := True \<rparr>) (all_notes s) \<rparr>))))" for k r
    using d by (intro create_new_note_distinct) (simp_all add: update_first_ids)
  with d OpenSelected show ?thesis
    by (simp add: open_selected_note_def split: option.split)
next
  case (DeleteSelected c)
  with d show ?thesis
    by (simp add: delete_selected_note_def Let_def reconcile_ids delete_first_distinct
        split: option.split)
next
  case (RecolorSelected c)
  with d show ?thesis
    by (simp add: change_selected_note_color_def Let_def reconcile_ids update_first_ids
        split: option.split)
next
  case Refresh
  with d show ?thesis by (simp add: reconcile_ids)
next
  case (FocusOut i)
  with d show ?thesis by (simp add: save_note_ids)
next
  case (Recolor i c)
  with d show ?thesis by (simp add: change_color_ids)
next
  case (Close i)
  with d show ?thesis by (simp add: on_close_ids)
next
  case (Relaunch clock default_bg)
  let ?c = "reconcile (windows s) (mark_was_open (windows s) (all_notes s))"
  let ?s0 = "\<lparr> windows = [], all_notes = [], search_var = [], tree = [], selection = None,
              preview = \<lparr> p_text = [], p_bg = default_bg \<rparr>, notes_file = Some ?c \<rparr>"
  from d have "distinct (map n_id (all_notes (refresh_note_list (?s0\<lparr> all_notes := ?c \<rparr>))))"
    by (simp add: reconcile_ids mark_was_open_ids)
  then have "distinct (map n_id (all_notes (reopen clock 0 xs (refresh_note_list (?s0\<lparr> all_notes := ?c \<rparr>)))))" for xs
    by (rule reopen_distinct)
  with Relaunch show ?thesis
    by (simp add: on_exit_file StickyNoteApp_init_def load_notes_def Let_def)
qed (insert d, simp_all add: on_window_def)

section \<open>The preview pane\<close>

lemma r_id_make_row [simp]: "r_id (make_row n) = n_id n"
  by (simp add: make_row_def)

text \<open>
  The rows of the list view come from \<open>filter_notes\<close> alone, which reads them off the
  store and drops the selection; a row is selected from the rows there are. So the ids
  of the rows and the selected id name records of the store, in every state reached.
\<close>

lemma tree_ok_iff:
  "tree_ok s \<longleftrightarrow>
     (\<forall>r \<in> set (tree s). find_note (r_id r) (all_notes s) \<noteq> None) \<and>
     (\<forall>k. selection s = Some k \<longrightarrow> find_note k (all_notes s) \<noteq> None)"
  by (simp add: tree_ok_def list_all_iff split: option.split)

lemma tree_ok_filter_notes: "tree_ok (filter_notes s)"
  by (auto simp: tree_ok_iff filter_notes_def insert_rows_eq find_note_None)

lemma tree_ok_refresh: "tree_ok (refresh_note_list s)"
  unfolding refresh_note_list_def by (rule tree_ok_filter_notes)

lemma tree_ok_cong:
  "tree_ok s \<Longrightarrow> tree s' = tree s \<Longrightarrow> selection s' = selection s \<Longrightarrow>
   all_notes s' = all_notes s \<Longrightarrow> tree_ok s'"
  by (simp add: tree_ok_iff)

lemma tree_ok_save_notes: "tree_ok (save_notes s)"
  by (rule tree_ok_cong [OF tree_ok_refresh [of s]]) (simp_all add: save_notes_def Let_def)

lemma tree_ok_update_preview: "tree_ok s \<Longrightarrow> tree_ok (update_preview s)"
  by (simp add: tree_ok_iff update_preview_def)

lemma tree_ok_idle: "tree_ok s \<Longrightarrow> tree_ok (idle s)"
  by (simp add: tree_ok_iff)

lemma tree_ok_on_window: "tree_ok s \<Longrightarrow> tree_ok (on_window i f s)"
  by (simp add: tree_ok_iff on_window_def)

lemma tree_ok_create_new_note: "tree_ok (create_new_note e nd s)"
  by (simp add: create_new_note_def Let_def tree_ok_refresh)

lemma tree_ok_update_note_in_list: "tree_ok s \<Longrightarrow> tree_ok (update_note_in_list k s)"
  by (simp add: update_note_in_list_def tree_ok_update_preview tree_ok_refresh
      split: option.split)

lemma tree_ok_save_note: "tree_ok (save_note i s)"
  unfolding save_note_def by (rule tree_ok_update_note_in_list) (rule tree_ok_save_notes)

lemma tree_ok_change_color: "tree_ok s \<Longrightarrow> tree_ok (change_color i chosen s)"
  by (simp add: change_color_def Let_def tree_ok_update_note_in_list tree_ok_save_note
      split: option.split)

lemma tree_ok_on_close: "tree_ok (on_close i s)"
proof -
  let ?s' = "save_note i s"
  let ?d = "(get_note_data (windows ?s' ! i))\<lparr> n_is_open := False, n_was_open := True \<rparr>"
  have "tree_ok (update_closed_note ?d ?s')"
    by (simp add: update_closed_note_def tree_ok_refresh)
  then show ?thesis
    by (simp add: on_close_def Let_def tree_ok_iff)
qed

lemma tree_ok_open_selected_note: "tree_ok s \<Longrightarrow> tree_ok (open_selected_note e s)"
  by (simp add: open_selected_note_def tree_ok_idle tree_ok_create_new_note
      split: option.split)

lemma tree_ok_delete_selected_note: "tree_ok s \<Longrightarrow> tree_ok (delete_selected_note c s)"
  by (simp add: delete_selected_note_def Let_def tree_ok_idle tree_ok_refresh
      split: option.split)

lemma tree_ok_change_selected_note_color:
  "tree_ok s \<Longrightarrow> tree_ok (change_selected_note_color chosen s)"
  by (simp add: change_selected_note_color_def Let_def tree_ok_idle tree_ok_refresh
      tree_ok_update_preview split: option.split)

lemma tree_ok_select_row:
  assumes "tree_ok s" and "j < length (tree s)"
  shows "tree_ok (update_preview (s\<lparr> selection := Some (r_id (tree s ! j)) \<rparr>))"
proof -
  from assms have "find_note (r_id (tree s ! j)) (all_notes s) \<noteq> None"
    by (simp add: tree_ok_iff)
  with assms(1) show ?thesis
    by (simp add: tree_ok_iff update_preview_def)
qed

lemma tree_ok_reopen: "tree_ok s \<Longrightarrow> tree_ok (reopen clock i ds s)"
  by (induction ds arbitrary: i s) (simp_all add: tree_ok_create_new_note)

lemma tree_ok_load_notes: "tree_ok s \<Longrightarrow> tree_ok (load_notes clock s)"
  by (simp add: load_notes_def Let_def tree_ok_reopen tree_ok_refresh split: option.split)

lemma tree_ok_init: "tree_ok (StickyNoteApp_init clock default_bg content)"
  unfolding StickyNoteApp_init_def by (rule tree_ok_load_notes) (simp add: tree_ok_iff)

lemma tree_ok_step: "tree_ok s \<Longrightarrow> tree_ok (step a s)"
proof (cases a)
  case (SelectRow j)
  assume "tree_ok s"
  with SelectRow show ?thesis by (simp add: tree_ok_select_row)
next
  case Refresh
  then show ?thesis by (simp add: tree_ok_refresh)
next
  case (Search t)
  then show ?thesis by (simp add: tree_ok_filter_notes)
qed (simp_all add: tree_ok_create_new_note tree_ok_open_selected_note
      tree_ok_delete_selected_note tree_ok_change_selected_note_color tree_ok_on_window
      tree_ok_idle tree_ok_save_note tree_ok_change_color tree_ok_on_close tree_ok_init)

lemma tree_ok_run: "tree_ok s \<Longrightarrow> tree_ok (run acts s)"
  by (induction acts arbitrary: s) (simp_all add: tree_ok_step)

lemma preview_projection_found:
  "find_note k ns \<noteq> None \<Longrightarrow> preview_projection (Some k) ns shown = spec_preview (Some k) ns"
  by (auto simp: preview_projection_def spec_preview_def)

lemma preview_projection_no_selection:
  "preview_projection None ns shown = spec_preview None ns"
  by (simp add: preview_projection_def spec_preview_def)

lemma preview_projection_unknown_id:
  "find_note k ns = None \<Longrightarrow> preview_projection (Some k) ns shown = shown"
  by (simp add: preview_projection_def)

text \<open>
  Claim C6. In every state \<open>s\<close> the program reaches from its start, on any file and by any
  sequence of events, \<open>update_preview\<close> shows what the projection of the specification
  yields for the selected id and the store: text and colour of the record the selected
  id names, and the cleared pane when nothing is selected. The selected id always names
  a record in such a state, since the rows are built from the store, and every removal
  of a record is followed by building them again. For a selected id without a record,
  which the program therefore never meets, \<open>StickyNoteApp.update_preview\<close> would leave the
  pane as it is (\<open>preview_projection_unknown_id\<close>).
  \<open>PreviewPanelComponent.update_preview\<close>, handed the result of the lookup, is the
  projection of the specification on every input, and clears the pane for \<open>None\<close>.
\<close>

theorem preview_is_projection:
  assumes reached: "s = run acts (StickyNoteApp_init clock default_bg content)"
  shows "preview (update_preview s) = spec_preview (selection s) (all_notes s)
    \<and> (\<forall>k. selection s = Some k \<longrightarrow> find_note k (all_notes s) \<noteq> None)
    \<and> panel_update_preview (find_note k ns) = spec_preview (Some k) ns
    \<and> panel_update_preview None = spec_preview None ns"
proof -
  have ok: "tree_ok s"
    unfolding reached by (rule tree_ok_run) (rule tree_ok_init)
  then have sel: "\<forall>k. selection s = Some k \<longrightarrow> find_note k (all_notes s) \<noteq> None"
    by (simp add: tree_ok_iff)
  have "preview (update_preview s) = spec_preview (selection s) (all_notes s)"
  proof (cases "selection s")
    case None
    then show ?thesis by (simp add: update_preview_def preview_projection_no_selection)
  next
    case (Some k)
    with sel have "find_note k (all_notes s) \<noteq> None" by simp
    with Some show ?thesis by (simp add: update_preview_def preview_projection_found)
  qed
  moreover have "panel_update_preview (find_note k ns) = spec_preview (Some k) ns"
    by (simp add: panel_update_preview_def spec_preview_def split: option.split)
  moreover have "panel_update_preview None = spec_preview None ns"
    by (simp add: panel_update_preview_def spec_preview_def)
  ultimately show ?thesis using sel by blast
qed

theorem preview_is_projection_witness:
  "selection (run [NewNote example_env, TypeText 0 ''hello'', FocusOut 0, SelectRow 0]
      first_launch) = Some ''20240101120000''
   \<and> find_note ''20240101120000''
       (all_notes (run [NewNote example_env, TypeText 0 ''hello'', FocusOut 0, SelectRow 0]
          first_launch)) \<noteq> None
   \<and> preview (update_preview
       (run [NewNote example_env, TypeText 0 ''hello'', FocusOut 0, SelectRow 0] first_launch))
     = \<lparr> p_text = ''hello'', p_bg = ''#FFFF99'' \<rparr>"
proof -
  let ?s = "run [NewNote example_env, TypeText 0 ''hello'', FocusOut 0, SelectRow 0] first_launch"
  have reached: "?s = run [NewNote example_env, TypeText 0 ''hello'', FocusOut 0, SelectRow 0]
      (StickyNoteApp_init (\<lambda>i. example_env) ''white'' None)"
    by (simp only: first_launch_def)
  have sel: "selection ?s = Some ''20240101120000''" by code_simp
  have shown: "spec_preview (selection ?s) (all_notes ?s)
      = \<lparr> p_text = ''hello'', p_bg = ''#FFFF99'' \<rparr>" by code_simp
  from preview_is_projection [OF reached]
  have pane: "preview (update_preview ?s) = spec_preview (selection ?s) (all_notes ?s)"
    and found: "\<forall>k. selection ?s = Some k \<longrightarrow> find_note k (all_notes ?s) \<noteq> None"
    by blast+
  from found sel have "find_note ''20240101120000'' (all_notes ?s) \<noteq> None" by blast
  with sel pane shown show ?thesis by simp
qed

section \<open>The size of a window and of its record\<close>








end
